theory Spec2Isabelle
  imports Complex_Main "HOL-Library.Log_Nat"
begin

section \<open>The order store of the orders microservice\<close>

text \<open>
  The routes file keeps the orders in a module-level array \<open>orders\<close> and registers five
  handlers on it: \<open>GET /\<close> (list), \<open>GET /:id\<close> (getById), \<open>POST /\<close> (create),
  \<open>PUT /:id/status\<close> (updateStatus) and \<open>DELETE /:id\<close> (delete). Each handler is embedded
  as a function from its request data and the array to the response and the array
  afterwards. The identifier \<open>uuidv4()\<close> returns and the readings of the clock
  (\<open>new Date().toISOString()\<close>) are arguments of the handlers that use them.

  A JavaScript number is embedded as the double it is, and the arithmetic of the handlers
  with its rounding.
\<close>

subsection \<open>Numbers\<close>

text \<open>
  A JavaScript number is an IEEE 754 double: a rational of the form \<open>m * 2^s\<close> with
  \<open>\<bar>m\<bar> < 2^53\<close> and \<open>- 1074 \<le> s \<le> 971\<close>, or an infinity, or \<open>NaN\<close>. The embedding keeps
  a finite double as the rational it is; it does not tell \<open>-0\<close> from \<open>0\<close>, which
  \<open>res.json\<close> writes alike.
\<close>

datatype number = Finite rat | PosInf | NegInf | NaN

definition pow2 :: "int \<Rightarrow> rat" where
  "pow2 e = (if 0 \<le> e then 2 ^ nat e else 1 / 2 ^ nat (- e))"

text \<open>Rounding to the nearest integer, a tie to the even one.\<close>

definition round_half_even :: "rat \<Rightarrow> int" where
  "round_half_even x =
     (let f = \<lfloor>x\<rfloor>; r = x - of_int f
      in if r < 1 / 2 then f else if 1 / 2 < r then f + 1 else if even f then f else f + 1)"

text \<open>The binary exponent of a positive rational \<open>a\<close>: \<open>2^e \<le> a < 2^(e + 1)\<close>.\<close>

definition ilog2 :: "rat \<Rightarrow> int" where
  "ilog2 a =
     (let (n, d) = quotient_of a; k = bitlen n - bitlen d
      in if pow2 k \<le> a then k else k - 1)"

text \<open>
  The double nearest to a rational, before overflow is looked at: 53 significant bits, a
  tie to the even significand, and the fixed spacing \<open>2^(- 1074)\<close> below \<open>2^(- 1022)\<close>.
  A result of magnitude \<open>2^1024\<close> or more, that is of binary exponent 1024 or more, is an
  infinity.
  This is how a number literal is read (\<open>JSON.parse\<close>, \<open>Number\<close>, \<open>parseInt\<close> and
  \<open>parseFloat\<close> of a decimal numeral) and how the result of \<open>+\<close>, \<open>-\<close>, \<open>*\<close> and \<open>/\<close> on
  doubles is rounded.
\<close>

definition nearest :: "rat \<Rightarrow> rat" where
  "nearest x =
     (if x = 0 then 0
      else let s = max (ilog2 \<bar>x\<bar>) (- 1022) - 52
           in of_int (round_half_even (x / pow2 s)) * pow2 s)"

definition fl :: "rat \<Rightarrow> number" where
  "fl x =
     (let d = nearest x
      in if d \<noteq> 0 \<and> 1024 \<le> ilog2 \<bar>d\<bar> then (if x < 0 then NegInf else PosInf)
         else Finite d)"

text \<open>The operators \<open>+\<close> and \<open>*\<close> on numbers.\<close>

fun fadd :: "number \<Rightarrow> number \<Rightarrow> number" where
  "fadd (Finite a) (Finite b) = fl (a + b)"
| "fadd NaN y = NaN"
| "fadd x NaN = NaN"
| "fadd PosInf NegInf = NaN"
| "fadd NegInf PosInf = NaN"
| "fadd (Finite a) y = y"
| "fadd x y = x"

fun fmul :: "number \<Rightarrow> number \<Rightarrow> number" where
  "fmul (Finite a) (Finite b) = fl (a * b)"
| "fmul NaN y = NaN"
| "fmul x NaN = NaN"
| "fmul (Finite a) y =
     (if a = 0 then NaN else if (0 < a) = (y = PosInf) then PosInf else NegInf)"
| "fmul x (Finite b) =
     (if b = 0 then NaN else if (0 < b) = (x = PosInf) then PosInf else NegInf)"
| "fmul x y = (if x = y then PosInf else NegInf)"

subsection \<open>Data\<close>

text \<open>
  A request body, as \<open>express.json()\<close> hands it to a handler: an object or an array, of
  any JSON values.
\<close>

datatype json =
    JNull
  | JBool bool
  | JNum rat
  | JStr string
  | JArr "json list"
  | JObj "(string \<times> json) list"

record item =
  productId :: string
  quantity :: rat
  price :: rat

record address =
  street :: string
  city :: string
  zipCode :: string
  country :: string

text \<open>The \<open>value\<close> that a successful schema validation returns.\<close>

record order_value =
  customerId :: string
  items :: "item list"
  shippingAddress :: address

text \<open>
  A stored order: the object literal of \<open>POST /\<close>. The fields \<open>id\<close> and \<open>total\<close> carry a
  prime because HOL has constants of those names.
\<close>

record order = order_value +
  id' :: string
  status :: string
  total' :: number
  createdAt :: string
  updatedAt :: string

text \<open>
  The \<open>pagination\<close> object of the list response. \<open>total_count\<close> is its field \<open>total\<close>;
  \<open>None\<close> is the \<open>null\<close> that \<open>res.json\<close> writes for a number that is not finite.
\<close>

record pagination =
  page :: "int option"
  limit :: "int option"
  total_count :: nat
  pages :: "int option"

text \<open>Where in the body a constraint is violated, and which one.\<close>

datatype seg = Key string | Index nat

datatype reason =
    Required
  | StringBase
  | StringEmpty
  | NumberBase
  | NumberInfinity
  | NumberUnsafe
  | NumberInteger
  | NumberMin
  | NumberPositive
  | ArrayBase
  | ArrayMin
  | ObjectBase
  | ObjectUnknown

type_synonym detail = "seg list \<times> reason"

text \<open>The failure responses of the handlers.\<close>

datatype error =
    ValidationFailed "detail list"
      \<comment> \<open>400 \<open>{error: 'Validation failed', details}\<close>\<close>
  | InvalidStatus "string list"
      \<comment> \<open>400 \<open>{error: 'Invalid status', validStatuses}\<close>\<close>
  | OrderNotFound
      \<comment> \<open>404 \<open>{error: 'Order not found'}\<close>\<close>

subsection \<open>\<open>GET /\<close>: list\<close>

text \<open>
  \<open>Array.prototype.slice(start, end)\<close>: a negative index counts from the end, and both
  indices are clipped to the bounds of the array.
\<close>

definition slice :: "'a list \<Rightarrow> int \<Rightarrow> int \<Rightarrow> 'a list" where
  "slice xs start fin =
     (let len = int (length xs);
          k = (if start < 0 then max (len + start) 0 else min start len);
          final = (if fin < 0 then max (len + fin) 0 else min fin len)
      in take (nat (final - k)) (drop (nat k) xs))"

text \<open>
  The filtering step. The query's \<open>status\<close> is a string or absent; \<open>if (status)\<close> tests
  its truthiness, so the empty string filters nothing, like an absent one.
\<close>

definition filteredOrders :: "string option \<Rightarrow> order list \<Rightarrow> order list" where
  "filteredOrders status_q orders =
     (case status_q of
        None \<Rightarrow> orders
      | Some s \<Rightarrow> if s \<noteq> [] then filter (\<lambda>order. status order = s) orders else orders)"

text \<open>
  What \<open>res.json\<close> writes for a number that holds an integer: the integer, or \<open>null\<close> for an
  infinity or \<open>NaN\<close>.
\<close>

definition echo :: "number \<Rightarrow> int option" where
  "echo d = (case d of Finite r \<Rightarrow> Some \<lfloor>r\<rfloor> | _ \<Rightarrow> None)"

text \<open>
  The handler. The query delivers \<open>page\<close> and \<open>limit\<close> as decimal numerals, \<open>None\<close> for an
  absent one, which gets the default. \<open>parseInt\<close> and the arithmetic read a numeral as
  the double nearest to the integer it denotes, so the response echoes that double and
  \<open>pages\<close> divides by it: \<open>null\<close> for a zero limit (the quotient is an infinity or \<open>NaN\<close>),
  zero for a limit so large that it is read as an infinity.

  The two indices are written on the integers themselves, and the quotient of \<open>pages\<close> on
  the rationals. An array has fewer than \<open>2^32\<close> entries. A product that is not a double is
  rounded to a double of the same sign and of magnitude at least \<open>2^53 - 1\<close>, or to an
  infinity, which \<open>slice\<close> clips to the same end of the array as the exact product; and the
  quotient of a length below \<open>2^32\<close> by a non-zero double rounds to a double with the
  same ceiling.
\<close>

definition list_orders ::
  "int option \<Rightarrow> int option \<Rightarrow> string option \<Rightarrow> order list
     \<Rightarrow> (order list \<times> pagination) \<times> order list" where
  "list_orders page_q limit_q status_q orders =
     (let pageN = (case page_q of None \<Rightarrow> 1 | Some p \<Rightarrow> p);
          limitN = (case limit_q of None \<Rightarrow> 10 | Some l \<Rightarrow> l);
          filtered = filteredOrders status_q orders;
          startIndex = (pageN - 1) * limitN;
          endIndex = pageN * limitN;
          paginatedOrders = slice filtered startIndex endIndex
      in ((paginatedOrders,
           \<lparr>page = echo (fl (of_int pageN)),
            limit = echo (fl (of_int limitN)),
            total_count = length filtered,
            pages = (case fl (of_int limitN) of
                       Finite m \<Rightarrow>
                         if m = 0 then None else Some \<lceil>of_nat (length filtered) / m\<rceil>
                     | PosInf \<Rightarrow> Some 0
                     | NegInf \<Rightarrow> Some 0
                     | NaN \<Rightarrow> None)\<rparr>),
          orders))"

subsection \<open>\<open>GET /:id\<close>: getById\<close>

definition getById :: "string \<Rightarrow> order list \<Rightarrow> (error + order) \<times> order list" where
  "getById ident orders =
     (case find (\<lambda>x. id' x = ident) orders of
        None \<Rightarrow> (Inl OrderNotFound, orders)
      | Some order \<Rightarrow> (Inr order, orders))"

subsection \<open>The order schema\<close>

text \<open>
  \<open>orderSchema\<close> is a Joi schema. A schema checks a value against its constraints in the
  order they are declared: the keys of an object in the order of the schema, then the keys
  the schema does not know (\<open>allowUnknown\<close> is off by default); the items of an array
  in order, then its \<open>min\<close> rule; a value of the wrong type (\<open>null\<close> too) fails its base
  check and its rules are not run; the rules of a number all run. The result of a check
  is the list of the violations found (\<open>Inl\<close>), or the validated value (\<open>Inr\<close>) when
  there is none.
\<close>

type_synonym 'a checked = "detail list + 'a"

fun errs :: "'a checked \<Rightarrow> detail list" where
  "errs (Inl ds) = ds"
| "errs (Inr v) = []"

definition both :: "'a checked \<Rightarrow> 'b checked \<Rightarrow> ('a \<times> 'b) checked" where
  "both a b =
     (case a of
        Inl ds \<Rightarrow> Inl (ds @ errs b)
      | Inr x \<Rightarrow> (case b of Inl ds \<Rightarrow> Inl ds | Inr y \<Rightarrow> Inr (x, y)))"

fun every :: "'a checked list \<Rightarrow> 'a list checked" where
  "every [] = Inr []"
| "every (c # cs) = map_sum id (\<lambda>(x, xs). x # xs) (both c (every cs))"

text \<open>\<open>value[key]\<close>: \<open>None\<close> is \<open>undefined\<close>. An object lists each of its keys once.\<close>

fun field :: "json \<Rightarrow> string \<Rightarrow> json option" where
  "field (JObj kvs) k = map_of kvs k"
| "field v k = None"

text \<open>\<open>Joi.string().required()\<close>: the empty string is not allowed.\<close>

fun string_required :: "seg list \<Rightarrow> json option \<Rightarrow> string checked" where
  "string_required p None = Inl [(p, Required)]"
| "string_required p (Some (JStr s)) = (if s = [] then Inl [(p, StringEmpty)] else Inr s)"
| "string_required p (Some v) = Inl [(p, StringBase)]"

text \<open>
  \<open>Joi.number()\<close> with rules, \<open>required()\<close>. A number literal \<open>JNum r\<close> of the body is
  the double nearest to \<open>r\<close>. The base check refuses an infinity and a number beyond
  \<open>Number.MAX_SAFE_INTEGER\<close>; the rules then all run.

  Joi validates with \<open>convert\<close> on: a string under a number schema that matches Joi's
  number pattern is converted with \<open>parseFloat\<close> before the checks, and refused as unsafe
  when its digits do not survive the conversion. What Joi does with a string is the
  parameter \<open>cv\<close>: \<open>NotNumeric\<close> for a string that does not match the pattern,
  \<open>Unsafe\<close> for one refused, \<open>Converted r\<close> for one converted to the double nearest to
  \<open>r\<close>.
\<close>

datatype conversion = NotNumeric | Unsafe | Converted rat

datatype rule = IntegerRule | MinRule rat | PositiveRule

fun broken :: "rule \<Rightarrow> rat \<Rightarrow> reason list" where
  "broken IntegerRule r = (if of_int \<lfloor>r\<rfloor> = r then [] else [NumberInteger])"
| "broken (MinRule m) r = (if m \<le> r then [] else [NumberMin])"
| "broken PositiveRule r = (if 0 < r then [] else [NumberPositive])"

definition MAX_SAFE_INTEGER :: rat where
  "MAX_SAFE_INTEGER = 9007199254740991"

definition number_rules :: "seg list \<Rightarrow> rule list \<Rightarrow> rat \<Rightarrow> rat checked" where
  "number_rules p rules r =
     (case fl r of
        Finite d \<Rightarrow>
          if MAX_SAFE_INTEGER < \<bar>d\<bar> then Inl [(p, NumberUnsafe)]
          else (case concat (map (\<lambda>ru. broken ru d) rules) of
                  [] \<Rightarrow> Inr d
                | rs \<Rightarrow> Inl (map (Pair p) rs))
      | _ \<Rightarrow> Inl [(p, NumberInfinity)])"

fun number_required ::
  "(string \<Rightarrow> conversion) \<Rightarrow> seg list \<Rightarrow> rule list \<Rightarrow> json option \<Rightarrow> rat checked" where
  "number_required cv p rules None = Inl [(p, Required)]"
| "number_required cv p rules (Some (JNum r)) = number_rules p rules r"
| "number_required cv p rules (Some (JStr s)) =
     (case cv s of
        NotNumeric \<Rightarrow> Inl [(p, NumberBase)]
      | Unsafe \<Rightarrow> Inl [(p, NumberUnsafe)]
      | Converted r \<Rightarrow> number_rules p rules r)"
| "number_required cv p rules (Some v) = Inl [(p, NumberBase)]"

text \<open>The keys of an object that its schema does not name, each a violation.\<close>

definition unknown :: "seg list \<Rightarrow> string list \<Rightarrow> (string \<times> json) list \<Rightarrow> detail list" where
  "unknown p known kvs =
     map (\<lambda>k. (p @ [Key k], ObjectUnknown)) (filter (\<lambda>k. k \<notin> set known) (map fst kvs))"

definition object_keys :: "'a checked \<Rightarrow> detail list \<Rightarrow> 'a checked" where
  "object_keys c unk =
     (case c of
        Inl ds \<Rightarrow> Inl (ds @ unk)
      | Inr v \<Rightarrow> if unk = [] then Inr v else Inl unk)"

text \<open>The schema of one item (lines 15 to 19).\<close>

fun item_schema :: "(string \<Rightarrow> conversion) \<Rightarrow> seg list \<Rightarrow> json \<Rightarrow> item checked" where
  "item_schema cv p (JObj kvs) =
     object_keys
       (map_sum id (\<lambda>(pid, q, pr). \<lparr>productId = pid, quantity = q, price = pr\<rparr>)
          (both (string_required (p @ [Key ''productId'']) (map_of kvs ''productId''))
             (both (number_required cv (p @ [Key ''quantity'']) [IntegerRule, MinRule 1]
                      (map_of kvs ''quantity''))
                (number_required cv (p @ [Key ''price'']) [PositiveRule] (map_of kvs ''price'')))))
       (unknown p [''productId'', ''quantity'', ''price''] kvs)"
| "item_schema cv p v = Inl [(p, ObjectBase)]"

text \<open>\<open>Joi.array().items(...).min(1).required()\<close> (lines 14 to 20).\<close>

fun items_schema ::
  "(string \<Rightarrow> conversion) \<Rightarrow> seg list \<Rightarrow> json option \<Rightarrow> item list checked" where
  "items_schema cv p None = Inl [(p, Required)]"
| "items_schema cv p (Some (JArr vs)) =
     (let c = every (map (\<lambda>(i, v). item_schema cv (p @ [Index i]) v) (enumerate 0 vs))
      in if length vs < 1 then Inl (errs c @ [(p, ArrayMin)]) else c)"
| "items_schema cv p (Some v) = Inl [(p, ArrayBase)]"

text \<open>The schema of the shipping address (lines 21 to 26).\<close>

fun address_schema :: "seg list \<Rightarrow> json option \<Rightarrow> address checked" where
  "address_schema p None = Inl [(p, Required)]"
| "address_schema p (Some (JObj kvs)) =
     object_keys
       (map_sum id (\<lambda>(s, c, z, n). \<lparr>street = s, city = c, zipCode = z, country = n\<rparr>)
          (both (string_required (p @ [Key ''street'']) (map_of kvs ''street''))
             (both (string_required (p @ [Key ''city'']) (map_of kvs ''city''))
                (both (string_required (p @ [Key ''zipCode'']) (map_of kvs ''zipCode''))
                   (string_required (p @ [Key ''country'']) (map_of kvs ''country''))))))
       (unknown p [''street'', ''city'', ''zipCode'', ''country''] kvs)"
| "address_schema p (Some v) = Inl [(p, ObjectBase)]"

text \<open>
  \<open>orderSchema\<close> (lines 12 to 27), with every violation of the body collected: what
  \<open>validate\<close> reports when \<open>abortEarly\<close> is off.
\<close>

fun orderSchema :: "(string \<Rightarrow> conversion) \<Rightarrow> json \<Rightarrow> order_value checked" where
  "orderSchema cv (JObj kvs) =
     object_keys
       (map_sum id (\<lambda>(c, i, a). \<lparr>customerId = c, items = i, shippingAddress = a\<rparr>)
          (both (string_required [Key ''customerId''] (map_of kvs ''customerId''))
             (both (items_schema cv [Key ''items''] (map_of kvs ''items''))
                (address_schema [Key ''shippingAddress''] (map_of kvs ''shippingAddress'')))))
       (unknown [] [''customerId'', ''items'', ''shippingAddress''] kvs)"
| "orderSchema cv v = Inl [([], ObjectBase)]"

text \<open>
  \<open>orderSchema.validate(req.body)\<close>, as the handler calls it: with no options, so with
  Joi's default \<open>abortEarly: true\<close>, under which validation stops at the first violation
  and \<open>error.details\<close> holds that one alone.
\<close>

definition validate :: "(string \<Rightarrow> conversion) \<Rightarrow> json \<Rightarrow> order_value checked" where
  "validate cv body =
     (case orderSchema cv body of
        Inl ds \<Rightarrow> Inl (take 1 ds)
      | Inr v \<Rightarrow> Inr v)"

text \<open>A check that fails reports at least one violation.\<close>

definition reports :: "'a checked \<Rightarrow> bool" where
  "reports c = (case c of Inl ds \<Rightarrow> ds \<noteq> [] | Inr v \<Rightarrow> True)"

subsection \<open>\<open>POST /\<close>: create\<close>

text \<open>
  \<open>uuid\<close> is what \<open>uuidv4()\<close> returns, \<open>now1\<close> and \<open>now2\<close> are the two readings of the
  clock, in the order of the object literal. The total is reduced from \<open>0\<close> over the items
  in order, each product and each sum rounded as the operators round them.
\<close>

definition create ::
  "(string \<Rightarrow> conversion) \<Rightarrow> string \<Rightarrow> string \<Rightarrow> string \<Rightarrow> json \<Rightarrow> order list
     \<Rightarrow> (error + order) \<times> order list" where
  "create cv uuid now1 now2 body orders =
     (case validate cv body of
        Inl details \<Rightarrow> (Inl (ValidationFailed details), orders)
      | Inr v \<Rightarrow>
          (let order =
                 \<lparr>customerId = customerId v, items = items v,
                  shippingAddress = shippingAddress v,
                  id' = uuid,
                  status = ''pending'',
                  total' =
                    foldl (\<lambda>sum item.
                              fadd sum (fmul (Finite (price item)) (Finite (quantity item))))
                      (Finite 0) (items v),
                  createdAt = now1,
                  updatedAt = now2\<rparr>
           in (Inr order, orders @ [order])))"

subsection \<open>\<open>PUT /:id/status\<close>: updateStatus\<close>

definition validStatuses :: "string list" where
  "validStatuses = [''pending'', ''processing'', ''shipped'', ''delivered'', ''cancelled'']"

text \<open>\<open>Array.prototype.findIndex\<close>: \<open>None\<close> is its \<open>-1\<close>.\<close>

fun findIndex :: "('a \<Rightarrow> bool) \<Rightarrow> 'a list \<Rightarrow> nat option" where
  "findIndex P [] = None"
| "findIndex P (x # xs) = (if P x then Some 0 else map_option Suc (findIndex P xs))"

text \<open>
  \<open>validStatuses.includes(status)\<close>, for the \<open>status\<close> of the body: only a string can be
  one of the five.
\<close>

definition array_includes :: "string list \<Rightarrow> json option \<Rightarrow> string option" where
  "array_includes xs v =
     (case v of
        Some (JStr s) \<Rightarrow> if s \<in> set xs then Some s else None
      | _ \<Rightarrow> None)"

definition updateStatus ::
  "string \<Rightarrow> json \<Rightarrow> string \<Rightarrow> order list \<Rightarrow> (error + order) \<times> order list" where
  "updateStatus ident body now orders =
     (case array_includes validStatuses (field body ''status'') of
        None \<Rightarrow> (Inl (InvalidStatus validStatuses), orders)
      | Some s \<Rightarrow>
          (case findIndex (\<lambda>x. id' x = ident) orders of
             None \<Rightarrow> (Inl OrderNotFound, orders)
           | Some orderIndex \<Rightarrow>
               (let orders' =
                      orders[orderIndex := (orders ! orderIndex)\<lparr>status := s, updatedAt := now\<rparr>]
                in (Inr (orders' ! orderIndex), orders'))))"

subsection \<open>\<open>DELETE /:id\<close>: delete\<close>

text \<open>\<open>orders.splice(orderIndex, 1)[0]\<close> takes the order at the index out of the array.\<close>

definition deleteOrder :: "string \<Rightarrow> order list \<Rightarrow> (error + order) \<times> order list" where
  "deleteOrder ident orders =
     (case findIndex (\<lambda>x. id' x = ident) orders of
        None \<Rightarrow> (Inl OrderNotFound, orders)
      | Some orderIndex \<Rightarrow>
          (Inr (orders ! orderIndex), take orderIndex orders @ drop (Suc orderIndex) orders))"

subsection \<open>Sequences of requests\<close>

datatype request =
    Create json string string string
  | List "int option" "int option" "string option"
  | GetById string
  | UpdateStatus string json string
  | Delete string

text \<open>The array after a request, and after a sequence of requests.\<close>

fun handle :: "(string \<Rightarrow> conversion) \<Rightarrow> order list \<Rightarrow> request \<Rightarrow> order list" where
  "handle cv orders (Create body uuid now1 now2) = snd (create cv uuid now1 now2 body orders)"
| "handle cv orders (List page_q limit_q status_q) =
     snd (list_orders page_q limit_q status_q orders)"
| "handle cv orders (GetById ident) = snd (getById ident orders)"
| "handle cv orders (UpdateStatus ident body now) = snd (updateStatus ident body now orders)"
| "handle cv orders (Delete ident) = snd (deleteOrder ident orders)"

definition run :: "(string \<Rightarrow> conversion) \<Rightarrow> request list \<Rightarrow> order list" where
  "run cv requests = foldl (handle cv) [] requests"

text \<open>The identifiers that \<open>uuidv4()\<close> returned to the create requests of a sequence.\<close>

fun created_ids :: "request list \<Rightarrow> string list" where
  "created_ids [] = []"
| "created_ids (Create body uuid now1 now2 # rs) = uuid # created_ids rs"
| "created_ids (r # rs) = created_ids rs"

subsection \<open>The order of the test suite\<close>

text \<open>
  \<open>validOrder\<close> is the body the tests post; \<open>stored ident st t\<close> is the order made from it
  with the given id, status and time stamp: its price is the double \<open>29.99\<close> and its total
  the double \<open>59.98\<close>, as the test expects. \<open>no_strings\<close> is the conversion of a request
  that holds no string under a number schema, as all the bodies evaluated below.
\<close>

definition validOrder :: json where
  "validOrder =
     JObj [(''customerId'', JStr ''customer-123''),
           (''items'', JArr [JObj [(''productId'', JStr ''product-1''),
                                   (''quantity'', JNum 2),
                                   (''price'', JNum (2999 / 100))]]),
           (''shippingAddress'', JObj [(''street'', JStr ''123 Main St''),
                                       (''city'', JStr ''New York''),
                                       (''zipCode'', JStr ''10001''),
                                       (''country'', JStr ''USA'')])]"

definition stored :: "string \<Rightarrow> string \<Rightarrow> string \<Rightarrow> order" where
  "stored ident st t =
     \<lparr>customerId = ''customer-123'',
      items = [\<lparr>productId = ''product-1'', quantity = 2, price = nearest (2999 / 100)\<rparr>],
      shippingAddress = \<lparr>street = ''123 Main St'', city = ''New York'',
                          zipCode = ''10001'', country = ''USA''\<rparr>,
      id' = ident, status = st, total' = Finite (nearest (2999 / 50)),
      createdAt = t, updatedAt = t\<rparr>"

definition no_strings :: "string \<Rightarrow> conversion" where
  "no_strings s = NotNumeric"

text \<open>A body with one item of price \<open>0.1\<close> and quantity \<open>3\<close>.\<close>

definition tenthOrder :: json where
  "tenthOrder =
     JObj [(''customerId'', JStr ''customer-123''),
           (''items'', JArr [JObj [(''productId'', JStr ''product-1''),
                                   (''quantity'', JNum 3),
                                   (''price'', JNum (1 / 10))]]),
           (''shippingAddress'', JObj [(''street'', JStr ''123 Main St''),
                                       (''city'', JStr ''New York''),
                                       (''zipCode'', JStr ''10001''),
                                       (''country'', JStr ''USA'')])]"

subsection \<open>The total of a request body\<close>

text \<open>
  The sum over the items of a request body of price times quantity, read from the body
  itself and computed with the operators of the language, item after item: the total
  in the words of the specification, to compare with the one the handler stores.
  \<open>number_of\<close> is the number that a field holds, a numeric string counting as the number it
  is converted to; \<open>exact_total\<close> is the same sum on the rationals, with no rounding.
\<close>

definition number_of :: "(string \<Rightarrow> conversion) \<Rightarrow> json option \<Rightarrow> number" where
  "number_of cv v =
     (case v of
        Some (JNum r) \<Rightarrow> fl r
      | Some (JStr s) \<Rightarrow> (case cv s of Converted r \<Rightarrow> fl r | _ \<Rightarrow> NaN)
      | _ \<Rightarrow> NaN)"

definition input_items :: "json \<Rightarrow> json list" where
  "input_items body = (case field body ''items'' of Some (JArr vs) \<Rightarrow> vs | _ \<Rightarrow> [])"

definition input_total :: "(string \<Rightarrow> conversion) \<Rightarrow> json \<Rightarrow> number" where
  "input_total cv body =
     foldl (\<lambda>sum x.
              fadd sum (fmul (number_of cv (field x ''price'')) (number_of cv (field x ''quantity''))))
       (Finite 0) (input_items body)"

definition literal :: "json option \<Rightarrow> rat" where
  "literal v = (case v of Some (JNum r) \<Rightarrow> r | _ \<Rightarrow> 0)"

definition exact_total :: "json \<Rightarrow> rat" where
  "exact_total body =
     (\<Sum>x \<leftarrow> input_items body. literal (field x ''price'') * literal (field x ''quantity''))"

section \<open>Properties\<close>

subsection \<open>Numbers\<close>

text \<open>A positive integer below \<open>2^53\<close> is a double.\<close>

lemma round_half_even_int: "round_half_even (of_int m) = m"
  by (simp add: round_half_even_def)

lemma ilog2_int_le:
  assumes "0 < n" and "n < 2 ^ 53"
  shows "ilog2 (of_int n) \<le> 52"
proof -
  from assms have "bitlen n \<le> 53"
    by (simp add: bitlen_le_iff_power)
  moreover have "bitlen 1 = 1"
    by (simp add: bitlen_alt_def)
  ultimately show ?thesis
    by (simp add: ilog2_def Let_def)
qed

lemma nearest_int:
  assumes "0 < n" and "n < 2 ^ 53"
  shows "nearest (of_int n) = of_int n"
proof -
  define s where "s = max (ilog2 \<bar>of_int n\<bar>) (- 1022) - 52"
  from assms have a: "\<bar>of_int n :: rat\<bar> = of_int n"
    by simp
  from ilog2_int_le [OF assms] have s: "s \<le> 0"
    by (simp add: s_def a)
  define m where "m = n * 2 ^ nat (- s)"
  from s have p: "pow2 s = 1 / 2 ^ nat (- s)"
    by (cases "s = 0") (simp_all add: pow2_def)
  have "of_int n / pow2 s = (of_int m :: rat)"
    by (simp add: p m_def)
  then have "round_half_even (of_int n / pow2 s) = m"
    by (simp only: round_half_even_int)
  then have "of_int (round_half_even (of_int n / pow2 s)) * pow2 s = (of_int n :: rat)"
    by (simp add: p m_def)
  with assms(1) show ?thesis
    by (simp add: nearest_def Let_def s_def)
qed

lemma fl_int:
  assumes "0 < n" and "n < 2 ^ 53"
  shows "fl (of_int n) = Finite (of_int n)"
proof -
  from assms(1) have "\<bar>of_int n :: rat\<bar> = of_int n"
    by simp
  with ilog2_int_le [OF assms] have "\<not> 1024 \<le> ilog2 \<bar>of_int n :: rat\<bar>"
    by simp
  then show ?thesis
    by (simp add: fl_def Let_def nearest_int [OF assms])
qed

subsection \<open>Pagination\<close>

lemma slice_positive:
  assumes "0 \<le> start" "start \<le> fin"
  shows "slice xs start fin = take (nat (fin - start)) (drop (nat start) xs)"
proof (cases "start \<le> int (length xs)")
  case True
  show ?thesis
  proof (cases "fin \<le> int (length xs)")
    case True
    with assms \<open>start \<le> int (length xs)\<close> show ?thesis
      by (simp add: slice_def Let_def min_def)
  next
    case False
    with assms True have "slice xs start fin = drop (nat start) xs"
      by (simp add: slice_def Let_def min_def)
    moreover from False assms have "length (drop (nat start) xs) \<le> nat (fin - start)"
      by simp
    ultimately show ?thesis by simp
  qed
next
  case False
  with assms show ?thesis
    by (simp add: slice_def Let_def min_def)
qed

lemma pages_bounds:
  assumes "0 < l"
  shows "int n \<le> ((int n + l - 1) div l) * l"
    and "((int n + l - 1) div l - 1) * l < int n"
proof -
  define k where "k = (int n + l - 1) div l"
  define r where "r = (int n + l - 1) mod l"
  have m: "0 \<le> r" "r < l"
    using assms by (simp_all add: r_def)
  have e: "k * l + r = int n + l - 1"
    by (simp add: k_def r_def)
  have d: "(k - 1) * l = k * l - l"
    by (simp add: algebra_simps)
  from e m show "int n \<le> ((int n + l - 1) div l) * l"
    unfolding k_def [symmetric] by linarith
  from e m d show "((int n + l - 1) div l - 1) * l < int n"
    unfolding k_def [symmetric] by linarith
qed

lemma ceiling_pages:
  assumes "0 < l"
  shows "\<lceil>(of_nat n :: rat) / of_int l\<rceil> = (int n + l - 1) div l"
proof -
  define k where "k = (int n + l - 1) div l"
  have up: "int n \<le> k * l" and lo: "(k - 1) * l < int n"
    using pages_bounds [OF assms, of n] by (simp_all add: k_def)
  have lpos: "(0::rat) < of_int l"
    using assms by simp
  have "(of_int (int n) :: rat) \<le> of_int (k * l)"
    using up by (simp only: of_int_le_iff)
  then have a: "(of_nat n :: rat) / of_int l \<le> of_int k"
    using lpos by (simp add: pos_divide_le_eq)
  have "(of_int ((k - 1) * l) :: rat) < of_int (int n)"
    using lo by (simp only: of_int_less_iff)
  then have b: "of_int k - 1 < (of_nat n :: rat) / of_int l"
    using lpos by (simp add: pos_less_divide_eq)
  have "\<lceil>(of_nat n :: rat) / of_int l\<rceil> = k"
    by (rule ceiling_unique [OF b a])
  then show ?thesis
    by (simp add: k_def)
qed

lemma set_slice: "set (slice xs a b) \<subseteq> set xs"
proof -
  have "set (take n (drop k xs)) \<subseteq> set xs" for n k
    using set_take_subset [of n "drop k xs"] set_drop_subset [of k xs] by blast
  then show ?thesis
    by (simp add: slice_def Let_def)
qed

lemma slice_infix: "\<exists>pre post. xs = pre @ slice xs a b @ post"
proof -
  have "xs = take k xs @ take n (drop k xs) @ drop n (drop k xs)" for n k
    by (simp only: append_take_drop_id)
  then show ?thesis
    unfolding slice_def Let_def by blast
qed

lemma list_orders_page:
  assumes "0 < p" "p < 2 ^ 53" "0 < l" "l < 2 ^ 53"
  shows "fst (list_orders (Some p) (Some l) status_q orders) =
           (take (nat l) (drop (nat ((p - 1) * l)) (filteredOrders status_q orders)),
            \<lparr>page = Some p, limit = Some l,
             total_count = length (filteredOrders status_q orders),
             pages = Some ((int (length (filteredOrders status_q orders)) + l - 1) div l)\<rparr>)"
proof -
  from assms have s: "0 \<le> (p - 1) * l"
    by simp
  have d: "p * l - (p - 1) * l = l"
    by (simp add: algebra_simps)
  from assms d have e: "(p - 1) * l \<le> p * l"
    by linarith
  from assms show ?thesis
    by (simp add: list_orders_def Let_def slice_positive [OF s e] d ceiling_pages
        fl_int echo_def)
qed

lemma list_orders_slice:
  "\<exists>a b. fst (fst (list_orders page_q limit_q status_q orders)) =
     slice (filteredOrders status_q orders) a b"
  by (simp add: list_orders_def Let_def) blast

lemma list_orders_total:
  "total_count (snd (fst (list_orders page_q limit_q status_q orders))) =
     length (filteredOrders status_q orders)"
  by (simp add: list_orders_def Let_def)

text \<open>
  C2, amended. For positive \<open>page\<close> and \<open>limit\<close> that are not above
  \<open>Number.MAX_SAFE_INTEGER\<close>, the list response holds the part of the filtered collection
  from index \<open>(page - 1) * limit\<close> up to, not including, \<open>page * limit\<close>, cut at the end of
  the collection: its entry \<open>i\<close> is entry \<open>(page - 1) * limit + i\<close> of the filtered
  collection, and it is empty when the page starts past the end. The pagination object
  gives \<open>page\<close> and \<open>limit\<close> back, the size of the filtered collection as \<open>total\<close>, and
  \<open>pages\<close> is the ceiling of \<open>total / limit\<close>, the least number of pages of that size
  that hold the collection.
\<close>

theorem list_returns_the_page:
  assumes "0 < p" and "p \<le> 9007199254740991" and "0 < l" and "l \<le> 9007199254740991"
  shows "(let F = filteredOrders status_q orders;
              start = nat ((p - 1) * l);
              ((paginatedOrders, info), orders') = list_orders (Some p) (Some l) status_q orders
          in paginatedOrders = take (nat l) (drop start F)
           \<and> length paginatedOrders = min (nat l) (length F - start)
           \<and> (\<forall>i < length paginatedOrders. paginatedOrders ! i = F ! (start + i))
           \<and> (length F \<le> start \<longrightarrow> paginatedOrders = [])
           \<and> page info = Some p \<and> limit info = Some l \<and> total_count info = length F
           \<and> pages info = Some \<lceil>(of_nat (length F) :: rat) / of_int l\<rceil>
           \<and> (\<exists>k. pages info = Some k \<and> int (length F) \<le> k * l
                  \<and> (k - 1) * l < int (length F)))"
proof -
  let ?F = "filteredOrders status_q orders"
  let ?k = "(int (length ?F) + l - 1) div l"
  from assms have b: "0 < p" "p < 2 ^ 53" "0 < l" "l < 2 ^ 53"
    by simp_all
  have c: "\<lceil>(of_nat (length ?F) :: rat) / of_int l\<rceil> = ?k"
    using assms(3) by (rule ceiling_pages)
  have up: "int (length ?F) \<le> ?k * l" and lo: "(?k - 1) * l < int (length ?F)"
    using pages_bounds [OF assms(3)] by blast+
  obtain R where R: "list_orders (Some p) (Some l) status_q orders =
      (fst (list_orders (Some p) (Some l) status_q orders), R)"
    by (metis prod.collapse)
  show ?thesis
    using up lo c
    by (subst R) (auto simp add: list_orders_page [OF b] Let_def)
qed

theorem list_returns_the_page_witness:
  "(0::int) < 2 \<and> (2::int) \<le> 9007199254740991 \<and> (0::int) < 1 \<and> (1::int) \<le> 9007199254740991
   \<and> fst (list_orders (Some 2) (Some 1) None
          [stored ''a'' ''pending'' ''t1'', stored ''b'' ''shipped'' ''t2'']) =
       ([stored ''b'' ''shipped'' ''t2''],
        \<lparr>page = Some 2, limit = Some 1, total_count = 2, pages = Some 2\<rparr>)"
  using list_returns_the_page
    [of 2 1 None "[stored ''a'' ''pending'' ''t1'', stored ''b'' ''shipped'' ''t2'']"]
  by (simp add: filteredOrders_def Let_def split: prod.splits)

text \<open>
  The claim as stated fails at a page beyond \<open>2^53\<close>: for the numeral
  \<open>9007199254740993\<close>, which no double holds, the response gives back the page
  \<open>9007199254740992\<close>.
\<close>

theorem list_echo_rounded_counterexample:
  "page (snd (fst (list_orders (Some 9007199254740993) (Some 1) None []))) =
     Some 9007199254740992
   \<and> (9007199254740992 :: int) \<noteq> 9007199254740993"
  by code_simp

text \<open>
  C10. The two reading handlers, list and getById, leave the array of orders as it was,
  whatever the query and whether or not the id is found.
\<close>

theorem reads_leave_orders_unchanged:
  "snd (list_orders page_q limit_q status_q orders) = orders
   \<and> snd (getById ident orders) = orders"
  by (simp add: list_orders_def Let_def getById_def split: option.split)

subsection \<open>Filtering\<close>

text \<open>
  C5, amended. For every non-empty status value, the list response holds only stored
  orders whose status is exactly that value, \<open>total\<close> is the number of such orders, and
  the page is a run of consecutive entries of the matching orders in the order of the
  array. When the filter is absent or is the empty string, \<open>total\<close> counts all the orders
  and the page is a run of consecutive entries of the array, the whole array when the first
  page is large enough.
\<close>

theorem list_filters_by_status:
  "(s \<noteq> [] \<longrightarrow>
      (let matching = filter (\<lambda>order. status order = s) orders;
           ((paginatedOrders, info), orders') = list_orders page_q limit_q (Some s) orders
       in (\<forall>order \<in> set paginatedOrders. status order = s \<and> order \<in> set orders)
        \<and> total_count info = length matching
        \<and> (\<exists>pre post. matching = pre @ paginatedOrders @ post)))
   \<and> (status_q = None \<or> status_q = Some [] \<longrightarrow>
      (let ((paginatedOrders, info), orders') = list_orders page_q limit_q status_q orders
       in total_count info = length orders
        \<and> (\<exists>pre post. orders = pre @ paginatedOrders @ post)
        \<and> (page_q = Some 1 \<and> limit_q = Some l \<and> int (length orders) \<le> l
             \<longrightarrow> paginatedOrders = orders)))"
proof -
  let ?R = "list_orders page_q limit_q (Some s) orders"
  let ?M = "filter (\<lambda>order. status order = s) orders"
  let ?Q = "list_orders page_q limit_q status_q orders"
  have first: "(\<forall>order \<in> set (fst (fst ?R)). status order = s \<and> order \<in> set orders)
      \<and> total_count (snd (fst ?R)) = length ?M
      \<and> (\<exists>pre post. ?M = pre @ fst (fst ?R) @ post)" if "s \<noteq> []"
  proof -
    from that have f: "filteredOrders (Some s) orders = ?M"
      by (simp add: filteredOrders_def)
    obtain a b where p: "fst (fst ?R) = slice ?M a b"
      using list_orders_slice [of page_q limit_q "Some s" orders] f by auto
    have "set (fst (fst ?R)) \<subseteq> set ?M"
      unfolding p by (rule set_slice)
    then have "\<forall>order \<in> set (fst (fst ?R)). status order = s \<and> order \<in> set orders"
      by auto
    moreover have "total_count (snd (fst ?R)) = length ?M"
      using list_orders_total [of page_q limit_q "Some s" orders] f by simp
    moreover have "\<exists>pre post. ?M = pre @ fst (fst ?R) @ post"
      unfolding p by (rule slice_infix)
    ultimately show ?thesis
      by blast
  qed
  have second: "total_count (snd (fst ?Q)) = length orders
      \<and> (\<exists>pre post. orders = pre @ fst (fst ?Q) @ post)
      \<and> (page_q = Some 1 \<and> limit_q = Some l \<and> int (length orders) \<le> l
             \<longrightarrow> fst (fst ?Q) = orders)" if "status_q = None \<or> status_q = Some []"
  proof -
    from that have f: "filteredOrders status_q orders = orders"
      by (auto simp add: filteredOrders_def)
    obtain a b where p: "fst (fst ?Q) = slice orders a b"
      using list_orders_slice [of page_q limit_q status_q orders] f by auto
    have "total_count (snd (fst ?Q)) = length orders"
      using list_orders_total [of page_q limit_q status_q orders] f by simp
    moreover have "\<exists>pre post. orders = pre @ fst (fst ?Q) @ post"
      unfolding p by (rule slice_infix)
    moreover have "fst (fst ?Q) = orders"
      if "page_q = Some 1" "limit_q = Some l" "int (length orders) \<le> l"
      using that f by (simp add: list_orders_def Let_def slice_def min_def)
    ultimately show ?thesis
      by blast
  qed
  from first second show ?thesis
    by (simp only: Let_def case_prod_beta) blast
qed

theorem list_filters_by_status_witness:
  "''shipped'' \<noteq> []
   \<and> fst (list_orders None None (Some ''shipped'')
          [stored ''a'' ''pending'' ''t1'', stored ''b'' ''shipped'' ''t2'']) =
       ([stored ''b'' ''shipped'' ''t2''],
        \<lparr>page = Some 1, limit = Some 10, total_count = 1, pages = Some 1\<rparr>)
   \<and> total_count (snd (fst (list_orders None None (Some ''shipped'')
          [stored ''a'' ''pending'' ''t1'', stored ''b'' ''shipped'' ''t2'']))) =
       length (filter (\<lambda>order. status order = ''shipped'')
          [stored ''a'' ''pending'' ''t1'', stored ''b'' ''shipped'' ''t2''])
   \<and> fst (list_orders None None None
          [stored ''a'' ''pending'' ''t1'', stored ''b'' ''shipped'' ''t2'']) =
       ([stored ''a'' ''pending'' ''t1'', stored ''b'' ''shipped'' ''t2''],
        \<lparr>page = Some 1, limit = Some 10, total_count = 2, pages = Some 1\<rparr>)"
proof -
  let ?os = "[stored ''a'' ''pending'' ''t1'', stored ''b'' ''shipped'' ''t2'']"
  have h: "''shipped'' \<noteq> []"
    by simp
  have e1: "fst (list_orders None None (Some ''shipped'') ?os) =
       ([stored ''b'' ''shipped'' ''t2''],
        \<lparr>page = Some 1, limit = Some 10, total_count = 1, pages = Some 1\<rparr>)"
    by code_simp
  have e2: "fst (list_orders None None None ?os) =
       (?os, \<lparr>page = Some 1, limit = Some 10, total_count = 2, pages = Some 1\<rparr>)"
    by code_simp
  from list_filters_by_status [of "''shipped''" ?os None None None 10, unfolded Let_def case_prod_beta] h
  have c: "total_count (snd (fst (list_orders None None (Some ''shipped'') ?os))) =
       length (filter (\<lambda>order. status order = ''shipped'') ?os)"
    by blast
  from h e1 c e2 show ?thesis
    by (intro conjI)
qed

text \<open>
  The claim as stated fails at the empty string: \<open>GET /?status=\<close> on a store that holds
  one pending order returns that order, whose status is not the empty string.
\<close>

theorem empty_status_filter_counterexample:
  "fst (fst (list_orders None None (Some '''') [stored ''a'' ''pending'' ''t1''])) =
     [stored ''a'' ''pending'' ''t1'']
   \<and> status (stored ''a'' ''pending'' ''t1'') \<noteq> ''''"
  by (simp add: list_orders_def filteredOrders_def slice_def stored_def Let_def)

subsection \<open>Status updates and deletion\<close>

lemma findIndex_Some:
  "findIndex P xs = Some i \<Longrightarrow> i < length xs \<and> P (xs ! i) \<and> (\<forall>j < i. \<not> P (xs ! j))"
proof (induction xs arbitrary: i)
  case Nil
  then show ?case by simp
next
  case (Cons x xs)
  show ?case
  proof (cases "P x")
    case True
    with Cons.prems show ?thesis by simp
  next
    case False
    with Cons.prems obtain k where k: "findIndex P xs = Some k" "i = Suc k"
      by auto
    from Cons.IH [OF k(1)] False k(2) show ?thesis
      by (auto simp add: nth_Cons split: nat.splits)
  qed
qed

lemma findIndex_None: "findIndex P xs = None \<longleftrightarrow> (\<forall>x \<in> set xs. \<not> P x)"
  by (induction xs) auto

lemma find_None: "find P xs = None \<longleftrightarrow> (\<forall>x \<in> set xs. \<not> P x)"
  by (induction xs) auto

lemma findIndex_distinct:
  assumes "distinct (map f xs)" and "y \<in> set xs"
  shows "\<exists>i. findIndex (\<lambda>x. f x = f y) xs = Some i \<and> xs ! i = y
           \<and> take i xs @ drop (Suc i) xs = filter (\<lambda>x. f x \<noteq> f y) xs"
  using assms
proof (induction xs)
  case Nil
  then show ?case by simp
next
  case (Cons x xs)
  show ?case
  proof (cases "f x = f y")
    case True
    with Cons.prems have xy: "x = y"
      by (metis distinct.simps(2) image_eqI list.simps(9) set_ConsD set_map)
    from Cons.prems True have "\<forall>z \<in> set xs. f z \<noteq> f y"
      by (metis distinct.simps(2) image_eqI list.simps(9) set_map)
    then have "filter (\<lambda>x. f x \<noteq> f y) xs = xs"
      by (simp add: filter_id_conv)
    with True xy show ?thesis
      by simp
  next
    case False
    with Cons.prems have "distinct (map f xs)" "y \<in> set xs"
      by auto
    from Cons.IH [OF this] False show ?thesis
      by auto
  qed
qed

lemma updateStatus_Inr:
  assumes "updateStatus ident body now orders = (Inr updated, orders')"
  shows "\<exists>i s. i < length orders \<and> id' (orders ! i) = ident
           \<and> field body ''status'' = Some (JStr s) \<and> s \<in> set validStatuses
           \<and> updated = (orders ! i)\<lparr>status := s, updatedAt := now\<rparr>
           \<and> orders' = orders[i := updated]"
proof -
  from assms obtain s where s: "array_includes validStatuses (field body ''status'') = Some s"
    by (auto simp add: updateStatus_def split: option.splits)
  then have f: "field body ''status'' = Some (JStr s)" "s \<in> set validStatuses"
    by (auto simp add: array_includes_def split: option.splits json.splits if_splits)
  from assms s obtain i where i: "findIndex (\<lambda>x. id' x = ident) orders = Some i"
    by (auto simp add: updateStatus_def split: option.splits)
  from findIndex_Some [OF i] have b: "i < length orders" "id' (orders ! i) = ident"
    by simp_all
  from assms s i b have u: "updated = (orders ! i)\<lparr>status := s, updatedAt := now\<rparr>"
    and o: "orders' = orders[i := updated]"
    by (auto simp add: updateStatus_def Let_def)
  from f b u o show ?thesis
    by blast
qed

text \<open>
  C3, amended. updateStatus looks for the new status among the five valid ones before it
  looks for the id: a status that is not one of them fails with the invalid-status error,
  which carries the full list of valid values, whether or not the id exists; a valid
  status for an id that no order has fails with not-found. In both cases the array is
  left as it was.
\<close>

theorem status_checked_before_existence:
  "set validStatuses = {''pending'', ''processing'', ''shipped'', ''delivered'', ''cancelled''}
   \<and> ((\<forall>s \<in> set validStatuses. field body ''status'' \<noteq> Some (JStr s))
        \<longrightarrow> updateStatus ident body now orders = (Inl (InvalidStatus validStatuses), orders))
   \<and> ((\<exists>s \<in> set validStatuses. field body ''status'' = Some (JStr s))
        \<and> ident \<notin> id' ` set orders
        \<longrightarrow> updateStatus ident body now orders = (Inl OrderNotFound, orders))"
proof -
  have a: "array_includes validStatuses (field body ''status'') = None"
    if "\<forall>s \<in> set validStatuses. field body ''status'' \<noteq> Some (JStr s)"
    using that by (auto simp add: array_includes_def split: option.splits json.splits)
  have b: "array_includes validStatuses (field body ''status'') = Some s"
    if "s \<in> set validStatuses" "field body ''status'' = Some (JStr s)" for s
    using that by (simp add: array_includes_def)
  have c: "findIndex (\<lambda>x. id' x = ident) orders = None" if "ident \<notin> id' ` set orders"
    using that by (auto simp add: findIndex_None)
  have d: "set validStatuses =
      {''pending'', ''processing'', ''shipped'', ''delivered'', ''cancelled''}"
    by (simp add: validStatuses_def)
  have e: "updateStatus ident body now orders = (Inl (InvalidStatus validStatuses), orders)"
    if "\<forall>s \<in> set validStatuses. field body ''status'' \<noteq> Some (JStr s)"
    using a [OF that] by (simp add: updateStatus_def)
  have f: "updateStatus ident body now orders = (Inl OrderNotFound, orders)"
    if "\<exists>s \<in> set validStatuses. field body ''status'' = Some (JStr s)"
      "ident \<notin> id' ` set orders"
    using that b c [OF that(2)] by (auto simp add: updateStatus_def)
  from d e f show ?thesis
    by blast
qed

theorem status_checked_before_existence_witness:
  "''invalid-status'' \<notin> set validStatuses
   \<and> updateStatus ''fake-id'' (JObj [(''status'', JStr ''invalid-status'')]) ''t'' [] =
       (Inl (InvalidStatus validStatuses), [])
   \<and> ''processing'' \<in> set validStatuses
   \<and> ''non-existent'' \<notin> id' ` set [stored ''a'' ''pending'' ''t1'']
   \<and> updateStatus ''non-existent'' (JObj [(''status'', JStr ''processing'')]) ''t''
         [stored ''a'' ''pending'' ''t1''] =
       (Inl OrderNotFound, [stored ''a'' ''pending'' ''t1''])"
  using status_checked_before_existence
    [of "JObj [(''status'', JStr ''invalid-status'')]" "''fake-id''" "''t''" "[]"]
    status_checked_before_existence
    [of "JObj [(''status'', JStr ''processing'')]" "''non-existent''" "''t''"
        "[stored ''a'' ''pending'' ''t1'']"]
  by (simp add: validStatuses_def stored_def)

text \<open>
  The claim as stated fails where it has the response report the invalid value: the
  response to an invalid status is \<open>{error: 'Invalid status', validStatuses}\<close>, the same
  for any two invalid values, so the value sent is not in it.
\<close>

theorem invalid_status_not_reported_counterexample:
  "fst (updateStatus ''fake-id'' (JObj [(''status'', JStr ''invalid-status'')]) ''t'' []) =
     Inl (InvalidStatus [''pending'', ''processing'', ''shipped'', ''delivered'', ''cancelled''])
   \<and> fst (updateStatus ''fake-id'' (JObj [(''status'', JStr ''bogus'')]) ''t'' []) =
     Inl (InvalidStatus [''pending'', ''processing'', ''shipped'', ''delivered'', ''cancelled''])
   \<and> JStr ''invalid-status'' \<noteq> JStr ''bogus''"
  by (simp add: updateStatus_def array_includes_def validStatuses_def)

text \<open>
  C8. A successful updateStatus returns the order at the first index with the id, with
  the status set to the new value and \<open>updatedAt\<close> to the clock reading; the id, customer,
  items, address, total and \<open>createdAt\<close> of that order are as before, the array has the
  updated order at that index and every other entry unchanged.
\<close>

theorem update_changes_status_and_updatedAt_only:
  assumes "updateStatus ident body now orders = (Inr updated, orders')"
  shows "\<exists>i s. i < length orders \<and> id' (orders ! i) = ident
           \<and> field body ''status'' = Some (JStr s) \<and> s \<in> set validStatuses
           \<and> updated = (orders ! i)\<lparr>status := s, updatedAt := now\<rparr>
           \<and> id' updated = id' (orders ! i)
           \<and> customerId updated = customerId (orders ! i)
           \<and> items updated = items (orders ! i)
           \<and> shippingAddress updated = shippingAddress (orders ! i)
           \<and> total' updated = total' (orders ! i)
           \<and> createdAt updated = createdAt (orders ! i)
           \<and> orders' = orders[i := updated]
           \<and> length orders' = length orders
           \<and> (\<forall>j < length orders. j \<noteq> i \<longrightarrow> orders' ! j = orders ! j)"
proof -
  from updateStatus_Inr [OF assms] obtain i s where
    "i < length orders" "id' (orders ! i) = ident"
    "field body ''status'' = Some (JStr s)" "s \<in> set validStatuses"
    "updated = (orders ! i)\<lparr>status := s, updatedAt := now\<rparr>"
    "orders' = orders[i := updated]"
    by blast
  then show ?thesis
    by (intro exI [of _ i] exI [of _ s]) simp
qed

theorem update_changes_status_and_updatedAt_only_witness:
  "updateStatus ''b'' (JObj [(''status'', JStr ''shipped'')]) ''t3''
       [stored ''a'' ''pending'' ''t1'', stored ''b'' ''pending'' ''t2''] =
     (Inr ((stored ''b'' ''shipped'' ''t2'')\<lparr>updatedAt := ''t3''\<rparr>),
      [stored ''a'' ''pending'' ''t1'', (stored ''b'' ''shipped'' ''t2'')\<lparr>updatedAt := ''t3''\<rparr>])
   \<and> (\<exists>i s. i < length [stored ''a'' ''pending'' ''t1'', stored ''b'' ''pending'' ''t2'']
          \<and> (stored ''b'' ''shipped'' ''t2'')\<lparr>updatedAt := ''t3''\<rparr> =
              ([stored ''a'' ''pending'' ''t1'', stored ''b'' ''pending'' ''t2''] ! i)
                \<lparr>status := s, updatedAt := ''t3''\<rparr>)"
proof -
  have e: "updateStatus ''b'' (JObj [(''status'', JStr ''shipped'')]) ''t3''
       [stored ''a'' ''pending'' ''t1'', stored ''b'' ''pending'' ''t2''] =
     (Inr ((stored ''b'' ''shipped'' ''t2'')\<lparr>updatedAt := ''t3''\<rparr>),
      [stored ''a'' ''pending'' ''t1'', (stored ''b'' ''shipped'' ''t2'')\<lparr>updatedAt := ''t3''\<rparr>])"
    by (simp add: updateStatus_def array_includes_def validStatuses_def stored_def Let_def)
  from update_changes_status_and_updatedAt_only [OF e] e show ?thesis
    by blast
qed

text \<open>
  C7. In a collection whose ids are distinct, deleting the id of a stored order returns
  that order and leaves the collection without it and otherwise as it was; deleting the
  same id again, and getById of that id, then fail with not-found.
\<close>

theorem delete_removes_the_order:
  assumes "order \<in> set orders" and "distinct (map id' orders)"
  shows "\<exists>orders'. deleteOrder (id' order) orders = (Inr order, orders')
           \<and> orders' = filter (\<lambda>x. id' x \<noteq> id' order) orders
           \<and> order \<notin> set orders'
           \<and> set orders' = set orders - {order}
           \<and> deleteOrder (id' order) orders' = (Inl OrderNotFound, orders')
           \<and> getById (id' order) orders' = (Inl OrderNotFound, orders')"
proof -
  let ?r = "filter (\<lambda>x. id' x \<noteq> id' order) orders"
  from findIndex_distinct [OF assms(2) assms(1)] obtain i
    where i: "findIndex (\<lambda>x. id' x = id' order) orders = Some i" "orders ! i = order"
      "take i orders @ drop (Suc i) orders = ?r"
    by blast
  then have d: "deleteOrder (id' order) orders = (Inr order, ?r)"
    by (simp add: deleteOrder_def)
  have n: "\<forall>x \<in> set ?r. \<not> id' x = id' order"
    by simp
  have "set ?r = set orders - {order}"
    using assms by (auto simp add: distinct_map inj_on_def)
  moreover have "deleteOrder (id' order) ?r = (Inl OrderNotFound, ?r)"
    using n by (simp add: deleteOrder_def findIndex_None [THEN iffD2])
  moreover have "getById (id' order) ?r = (Inl OrderNotFound, ?r)"
    using n by (simp add: getById_def find_None [THEN iffD2])
  ultimately show ?thesis
    using d by auto
qed

theorem delete_removes_the_order_witness:
  "stored ''a'' ''pending'' ''t1'' \<in> set [stored ''a'' ''pending'' ''t1'', stored ''b'' ''shipped'' ''t2'']
   \<and> distinct (map id' [stored ''a'' ''pending'' ''t1'', stored ''b'' ''shipped'' ''t2''])
   \<and> deleteOrder ''a'' [stored ''a'' ''pending'' ''t1'', stored ''b'' ''shipped'' ''t2''] =
       (Inr (stored ''a'' ''pending'' ''t1''), [stored ''b'' ''shipped'' ''t2''])
   \<and> deleteOrder ''a'' [stored ''b'' ''shipped'' ''t2''] =
       (Inl OrderNotFound, [stored ''b'' ''shipped'' ''t2''])
   \<and> getById ''a'' [stored ''b'' ''shipped'' ''t2''] =
       (Inl OrderNotFound, [stored ''b'' ''shipped'' ''t2''])"
  using delete_removes_the_order
    [of "stored ''a'' ''pending'' ''t1''"
        "[stored ''a'' ''pending'' ''t1'', stored ''b'' ''shipped'' ''t2'']"]
  by (simp add: stored_def)

subsection \<open>Validation\<close>

lemma reports_errs: "reports c \<Longrightarrow> errs c = [] \<longleftrightarrow> (\<exists>v. c = Inr v)"
  by (cases c) (simp_all add: reports_def)

lemma reports_both: "reports a \<Longrightarrow> reports b \<Longrightarrow> reports (both a b)"
  by (cases a; cases b) (simp_all add: reports_def both_def)

lemma reports_map_sum: "reports c \<Longrightarrow> reports (map_sum id f c)"
  by (cases c) (simp_all add: reports_def)

lemma reports_object_keys: "reports c \<Longrightarrow> reports (object_keys c unk)"
  by (cases c) (simp_all add: reports_def object_keys_def)

lemma reports_every: "(\<forall>c \<in> set cs. reports c) \<Longrightarrow> reports (every cs)"
proof (induction cs)
  case Nil
  then show ?case by (simp add: reports_def)
next
  case (Cons c cs)
  then show ?case
    by (simp add: reports_both reports_map_sum)
qed

lemma reports_string_required: "reports (string_required p v)"
  by (induction p v rule: string_required.induct) (simp_all add: reports_def)

lemma reports_number_rules: "reports (number_rules p rules r)"
  by (simp add: number_rules_def reports_def split: list.splits number.splits)

lemma reports_number_required: "reports (number_required cv p rules v)"
  by (induction cv p rules v rule: number_required.induct)
    (simp_all add: reports_number_rules split: conversion.splits, simp_all add: reports_def)

lemma reports_item_schema: "reports (item_schema cv p v)"
proof (cases v)
  case (JObj kvs)
  then show ?thesis
    by (simp add: reports_object_keys reports_map_sum reports_both
        reports_string_required reports_number_required)
qed (simp_all add: reports_def)

lemma reports_items_schema: "reports (items_schema cv p v)"
proof (induction cv p v rule: items_schema.induct)
  case (2 cv p vs)
  have "reports (every (map (\<lambda>(i, v). item_schema cv (p @ [Index i]) v) (enumerate 0 vs)))"
    by (rule reports_every) (auto simp add: reports_item_schema)
  then show ?case
    by (simp add: Let_def reports_def)
qed (simp_all add: reports_def)

lemma reports_address_schema: "reports (address_schema p v)"
proof (induction p v rule: address_schema.induct)
  case (2 p kvs)
  then show ?case
    by (simp add: reports_object_keys reports_map_sum reports_both reports_string_required)
qed (simp_all add: reports_def)

lemma reports_orderSchema: "reports (orderSchema cv body)"
proof (cases body)
  case (JObj kvs)
  then show ?thesis
    by (simp add: reports_object_keys reports_map_sum reports_both
        reports_string_required reports_items_schema reports_address_schema)
qed (simp_all add: reports_def)

lemma validate_invalid:
  assumes "errs (orderSchema cv body) \<noteq> []"
  shows "validate cv body = Inl [hd (errs (orderSchema cv body))]"
proof (cases "orderSchema cv body")
  case (Inl ds)
  with assms have "ds \<noteq> []"
    by simp
  then have "take 1 ds = [hd ds]"
    by (cases ds) simp_all
  with Inl show ?thesis
    by (simp add: validate_def)
next
  case (Inr v)
  with assms show ?thesis
    by simp
qed

lemma validate_valid:
  "errs (orderSchema cv body) = [] \<Longrightarrow> \<exists>v. orderSchema cv body = Inr v \<and> validate cv body = Inr v"
  using reports_errs [OF reports_orderSchema, of cv body]
  by (auto simp add: validate_def)

lemma validate_Inl_iff:
  "(\<exists>ds. validate cv body = Inl ds) \<longleftrightarrow> errs (orderSchema cv body) \<noteq> []"
  using validate_invalid [of cv body] validate_valid [of cv body]
  by (cases "errs (orderSchema cv body) = []") auto

text \<open>
  C1, amended. For every creation input that violates the schema, create fails with the
  validation error, and its detail list holds one entry: the first violation in the order
  of the schema. The array is left as it was.
\<close>

theorem create_reports_first_violation:
  assumes "errs (orderSchema cv body) \<noteq> []"
  shows "create cv uuid now1 now2 body orders =
           (Inl (ValidationFailed [hd (errs (orderSchema cv body))]), orders)"
  using validate_invalid [OF assms] by (simp add: create_def)

theorem create_reports_first_violation_witness:
  "errs (orderSchema no_strings (JObj [(''customerId'', JStr ''customer-123'')])) \<noteq> []
   \<and> create no_strings ''u'' ''t'' ''t'' (JObj [(''customerId'', JStr ''customer-123'')]) [] =
       (Inl (ValidationFailed [([Key ''items''], Required)]), [])"
  using create_reports_first_violation
    [of no_strings "JObj [(''customerId'', JStr ''customer-123'')]" "''u''" "''t''" "''t''" "[]"]
  by (simp add: both_def object_keys_def unknown_def)

text \<open>
  The claim as stated fails on the body of the test suite's invalid order, which has
  the customer only: two constraints are violated (\<open>items\<close> and \<open>shippingAddress\<close> are
  required), and the response carries one detail.
\<close>

theorem create_reports_one_of_two_counterexample:
  "errs (orderSchema no_strings (JObj [(''customerId'', JStr ''customer-123'')])) =
     [([Key ''items''], Required), ([Key ''shippingAddress''], Required)]
   \<and> fst (create no_strings ''u'' ''t'' ''t'' (JObj [(''customerId'', JStr ''customer-123'')]) []) =
     Inl (ValidationFailed [([Key ''items''], Required)])"
  by (simp add: create_def validate_def both_def object_keys_def unknown_def)

text \<open>
  C6. A creation input that fails validation gets the validation error and leaves the
  array of orders as it was. An input with no items, or without one of the required
  fields, is such an input.
\<close>

theorem invalid_create_leaves_orders:
  "(validate cv body = Inl details
      \<longrightarrow> create cv uuid now1 now2 body orders = (Inl (ValidationFailed details), orders))
   \<and> (field body ''items'' = Some (JArr []) \<or> field body ''customerId'' = None
        \<or> field body ''items'' = None \<or> field body ''shippingAddress'' = None
      \<longrightarrow> (\<exists>ds. validate cv body = Inl ds
              \<and> create cv uuid now1 now2 body orders = (Inl (ValidationFailed ds), orders)))"
proof -
  have a: "create cv uuid now1 now2 body orders = (Inl (ValidationFailed ds), orders)"
    if "validate cv body = Inl ds" for ds
    using that by (simp add: create_def)
  have b: "errs (orderSchema cv body) \<noteq> []"
    if "field body ''items'' = Some (JArr []) \<or> field body ''customerId'' = None
        \<or> field body ''items'' = None \<or> field body ''shippingAddress'' = None"
  proof (cases body)
    case (JObj kvs)
    with that show ?thesis
      by (auto simp add: both_def object_keys_def split: sum.splits)
  qed simp_all
  from a b validate_Inl_iff [of cv body] show ?thesis
    by blast
qed

theorem invalid_create_leaves_orders_witness:
  "field (JObj [(''customerId'', JStr ''customer-123''), (''items'', JArr [])]) ''items'' =
     Some (JArr [])
   \<and> create no_strings ''u'' ''t'' ''t''
        (JObj [(''customerId'', JStr ''customer-123''), (''items'', JArr [])])
        [stored ''a'' ''pending'' ''t1''] =
       (Inl (ValidationFailed [([Key ''items''], ArrayMin)]), [stored ''a'' ''pending'' ''t1''])"
  using invalid_create_leaves_orders
    [of no_strings "JObj [(''customerId'', JStr ''customer-123''), (''items'', JArr [])]"
        _ "''u''" "''t''" "''t''" "[stored ''a'' ''pending'' ''t1'']"]
  by (simp add: validate_def both_def object_keys_def unknown_def)

subsection \<open>Identifiers\<close>

lemma created_ids_append: "created_ids (rs @ [r]) = created_ids rs @ created_ids [r]"
  by (induction rs rule: created_ids.induct) simp_all

lemma handle_ids:
  assumes "distinct (map id' orders)"
    and "\<forall>u \<in> set (created_ids [r]). u \<notin> id' ` set orders"
  shows "distinct (map id' (handle cv orders r))
       \<and> id' ` set (handle cv orders r) \<subseteq> id' ` set orders \<union> set (created_ids [r])"
proof (cases r)
  case (Create body uuid now1 now2)
  with assms show ?thesis
    by (auto simp add: create_def Let_def split: sum.splits)
next
  case (List page_q limit_q status_q)
  with assms show ?thesis
    by (simp add: list_orders_def Let_def)
next
  case (GetById ident)
  with assms show ?thesis
    by (simp add: getById_def split: option.splits)
next
  case (UpdateStatus ident body now)
  have "map id' (orders[i := (orders ! i)\<lparr>status := s, updatedAt := now\<rparr>]) = map id' orders"
    if "i < length orders" for i s
    using that by (simp add: map_update list_update_same_conv)
  then have "map id' (snd (updateStatus ident body now orders)) = map id' orders"
    by (auto simp add: updateStatus_def Let_def split: option.splits dest: findIndex_Some)
  with assms UpdateStatus show ?thesis
    by (metis handle.simps(4) list.set_map sup_ge1)
next
  case (Delete ident)
  show ?thesis
  proof (cases "findIndex (\<lambda>x. id' x = ident) orders")
    case None
    with assms Delete show ?thesis
      by (simp add: deleteOrder_def)
  next
    case (Some i)
    from findIndex_Some [OF Some] have y: "orders ! i \<in> set orders" "id' (orders ! i) = ident"
      by simp_all
    from findIndex_distinct [OF assms(1) y(1)] y(2) Some
    have "take i orders @ drop (Suc i) orders = filter (\<lambda>x. id' x \<noteq> ident) orders"
      by auto
    with Some Delete have "handle cv orders r = filter (\<lambda>x. id' x \<noteq> ident) orders"
      by (simp add: deleteOrder_def)
    with assms(1) show ?thesis
      by (auto simp add: distinct_map_filter)
  qed
qed

lemma run_ids:
  "distinct (created_ids requests) \<longrightarrow>
     distinct (map id' (run cv requests))
     \<and> id' ` set (run cv requests) \<subseteq> set (created_ids requests)"
proof (induction requests rule: rev_induct)
  case Nil
  show ?case by (simp add: run_def)
next
  case (snoc r requests)
  show ?case
  proof
    assume d: "distinct (created_ids (requests @ [r]))"
    then have d1: "distinct (created_ids requests)"
      and d2: "set (created_ids requests) \<inter> set (created_ids [r]) = {}"
      by (simp_all add: created_ids_append)
    from snoc.IH d1 have i: "distinct (map id' (run cv requests))"
      "id' ` set (run cv requests) \<subseteq> set (created_ids requests)"
      by simp_all
    from i(2) d2 have f: "\<forall>u \<in> set (created_ids [r]). u \<notin> id' ` set (run cv requests)"
      by blast
    have e: "run cv (requests @ [r]) = handle cv (run cv requests) r"
      by (simp add: run_def)
    from handle_ids [OF i(1) f, of cv] have
      k: "distinct (map id' (handle cv (run cv requests) r))"
      "id' ` set (handle cv (run cv requests) r)
         \<subseteq> id' ` set (run cv requests) \<union> set (created_ids [r])"
      by simp_all
    from k(2) i(2) have "id' ` set (handle cv (run cv requests) r)
         \<subseteq> set (created_ids requests) \<union> set (created_ids [r])"
      by blast
    with k(1) show
      "distinct (map id' (run cv (requests @ [r])))
       \<and> id' ` set (run cv (requests @ [r])) \<subseteq> set (created_ids (requests @ [r]))"
      unfolding e created_ids_append by simp
  qed
qed

text \<open>
  X1. When \<open>uuidv4()\<close> never returns the same identifier twice, the identifiers of the
  stored orders are pairwise distinct after any sequence of requests on the empty store.
\<close>

theorem reachable_ids_distinct:
  assumes "distinct (created_ids requests)"
  shows "distinct (map id' (run cv requests))"
  using run_ids [of requests cv] assms by simp

theorem reachable_ids_distinct_witness:
  "distinct (created_ids [Create validOrder ''u1'' ''t1'' ''t1'', Delete ''u1'',
       Create validOrder ''u2'' ''t2'' ''t2''])
   \<and> distinct (map id' (run no_strings [Create validOrder ''u1'' ''t1'' ''t1'', Delete ''u1'',
       Create validOrder ''u2'' ''t2'' ''t2'']))"
proof -
  have h: "distinct (created_ids [Create validOrder ''u1'' ''t1'' ''t1'', Delete ''u1'',
       Create validOrder ''u2'' ''t2'' ''t2''])"
    by simp
  from h reachable_ids_distinct [OF h] show ?thesis
    by (intro conjI)
qed

subsection \<open>Creation\<close>

lemma both_Inr: "both a b = Inr v \<Longrightarrow> a = Inr (fst v) \<and> b = Inr (snd v)"
  by (cases a; cases b) (auto simp add: both_def)

lemma map_sum_Inr: "map_sum id f c = Inr v \<Longrightarrow> \<exists>t. c = Inr t \<and> v = f t"
  by (cases c) auto

lemma object_keys_Inr: "object_keys c unk = Inr v \<Longrightarrow> c = Inr v"
  by (cases c) (auto simp add: object_keys_def split: if_splits)

lemma number_required_Inr:
  "number_required cv p rules v = Inr d \<Longrightarrow> number_of cv v = Finite d"
  by (induction cv p rules v rule: number_required.induct)
    (auto simp add: number_of_def number_rules_def
      split: number.splits conversion.splits if_splits list.splits)

lemma item_schema_Inr:
  assumes "item_schema cv p x = Inr it"
  shows "number_of cv (field x ''price'') = Finite (price it)
       \<and> number_of cv (field x ''quantity'') = Finite (quantity it)"
proof (cases x)
  case (JObj kvs)
  with assms have
    "object_keys
       (map_sum id (\<lambda>(pid, q, pr). \<lparr>productId = pid, quantity = q, price = pr\<rparr>)
          (both (string_required (p @ [Key ''productId'']) (map_of kvs ''productId''))
             (both (number_required cv (p @ [Key ''quantity'']) [IntegerRule, MinRule 1]
                      (map_of kvs ''quantity''))
                (number_required cv (p @ [Key ''price'']) [PositiveRule] (map_of kvs ''price'')))))
       (unknown p [''productId'', ''quantity'', ''price''] kvs) = Inr it"
    by simp
  from map_sum_Inr [OF object_keys_Inr [OF this]] obtain t where
    t: "both (string_required (p @ [Key ''productId'']) (map_of kvs ''productId''))
          (both (number_required cv (p @ [Key ''quantity'']) [IntegerRule, MinRule 1]
                   (map_of kvs ''quantity''))
             (number_required cv (p @ [Key ''price'']) [PositiveRule] (map_of kvs ''price''))) =
        Inr t"
    and it: "it = (\<lambda>(pid, q, pr). \<lparr>productId = pid, quantity = q, price = pr\<rparr>) t"
    by blast
  from both_Inr [OF t] have
    "both (number_required cv (p @ [Key ''quantity'']) [IntegerRule, MinRule 1] (map_of kvs ''quantity''))
       (number_required cv (p @ [Key ''price'']) [PositiveRule] (map_of kvs ''price'')) =
     Inr (snd t)"
    by simp
  from both_Inr [OF this] have
    "number_of cv (map_of kvs ''quantity'') = Finite (fst (snd t))"
    "number_of cv (map_of kvs ''price'') = Finite (snd (snd t))"
    by (auto dest: number_required_Inr)
  with it JObj show ?thesis
    by (simp add: case_prod_beta)
qed (use assms in simp_all)

lemma every_items_total:
  "every (map (\<lambda>(i, x). item_schema cv (p @ [Index i]) x) (enumerate n vs)) = Inr its
   \<Longrightarrow> foldl (\<lambda>sum item. fadd sum (fmul (Finite (price item)) (Finite (quantity item))))
         a its =
       foldl (\<lambda>sum x.
                fadd sum (fmul (number_of cv (field x ''price''))
                   (number_of cv (field x ''quantity''))))
         a vs"
proof (induction vs arbitrary: n its a)
  case Nil
  then show ?case by auto
next
  case (Cons x vs)
  from Cons.prems have
    "map_sum id (\<lambda>(x, xs). x # xs)
       (both (item_schema cv (p @ [Index n]) x)
          (every (map (\<lambda>(i, x). item_schema cv (p @ [Index i]) x) (enumerate (Suc n) vs)))) =
     Inr its"
    by simp
  from map_sum_Inr [OF this] obtain t where
    t: "both (item_schema cv (p @ [Index n]) x)
          (every (map (\<lambda>(i, x). item_schema cv (p @ [Index i]) x) (enumerate (Suc n) vs))) =
        Inr t"
    and its: "its = fst t # snd t"
    by (auto simp add: case_prod_beta)
  from both_Inr [OF t] have h: "item_schema cv (p @ [Index n]) x = Inr (fst t)"
    and r: "every (map (\<lambda>(i, x). item_schema cv (p @ [Index i]) x) (enumerate (Suc n) vs)) =
      Inr (snd t)"
    by simp_all
  from Cons.IH [OF r] item_schema_Inr [OF h] its show ?case
    by simp
qed

lemma items_schema_Inr:
  "items_schema cv p v = Inr its
   \<Longrightarrow> \<exists>vs. v = Some (JArr vs)
         \<and> every (map (\<lambda>(i, x). item_schema cv (p @ [Index i]) x) (enumerate 0 vs)) = Inr its"
  by (induction cv p v rule: items_schema.induct) (auto simp add: Let_def split: if_splits)

lemma orderSchema_total:
  assumes "orderSchema cv body = Inr v"
  shows "foldl (\<lambda>sum item. fadd sum (fmul (Finite (price item)) (Finite (quantity item))))
           (Finite 0) (items v) =
         input_total cv body"
proof (cases body)
  case (JObj kvs)
  with assms have
    "object_keys
       (map_sum id (\<lambda>(c, i, a). \<lparr>customerId = c, items = i, shippingAddress = a\<rparr>)
          (both (string_required [Key ''customerId''] (map_of kvs ''customerId''))
             (both (items_schema cv [Key ''items''] (map_of kvs ''items''))
                (address_schema [Key ''shippingAddress''] (map_of kvs ''shippingAddress'')))))
       (unknown [] [''customerId'', ''items'', ''shippingAddress''] kvs) = Inr v"
    by simp
  from map_sum_Inr [OF object_keys_Inr [OF this]] obtain t where
    t: "both (string_required [Key ''customerId''] (map_of kvs ''customerId''))
          (both (items_schema cv [Key ''items''] (map_of kvs ''items''))
             (address_schema [Key ''shippingAddress''] (map_of kvs ''shippingAddress''))) =
        Inr t"
    and v: "v = (\<lambda>(c, i, a). \<lparr>customerId = c, items = i, shippingAddress = a\<rparr>) t"
    by blast
  from both_Inr [OF t] have
    "both (items_schema cv [Key ''items''] (map_of kvs ''items''))
       (address_schema [Key ''shippingAddress''] (map_of kvs ''shippingAddress'')) =
     Inr (snd t)"
    by simp
  from both_Inr [OF this] have "items_schema cv [Key ''items''] (map_of kvs ''items'') =
      Inr (fst (snd t))"
    by simp
  from items_schema_Inr [OF this] obtain vs where
    vs: "map_of kvs ''items'' = Some (JArr vs)"
      "every (map (\<lambda>(i, x). item_schema cv ([Key ''items''] @ [Index i]) x) (enumerate 0 vs)) =
       Inr (fst (snd t))"
    by blast
  from v have "items v = fst (snd t)"
    by (simp add: case_prod_beta)
  with every_items_total [OF vs(2)] vs(1) JObj show ?thesis
    by (simp add: input_total_def input_items_def)
qed (use assms in simp_all)

lemma find_last:
  "\<forall>x \<in> set xs. \<not> P x \<Longrightarrow> P y \<Longrightarrow> find P (xs @ [y]) = Some y"
  by (induction xs) simp_all

text \<open>
  C4, amended. For every valid creation input, in a store reached from the empty one with
  \<open>uuidv4()\<close> never returning an identifier twice, create returns and appends an order
  whose id is fresh (no stored order has it), with the status \<open>pending\<close>, the validated
  customer, items and address, and a total equal to the sum over the input items of price
  times quantity as the operators of the language compute it, item after item, each
  product and each sum rounded to a double. \<open>createdAt\<close> is the first reading of the clock
  and \<open>updatedAt\<close> the second. The ids stay distinct, getById of the id returns the
  order, and the order is the last one that list pages over, with no filter or with the
  filter \<open>pending\<close>.
\<close>

theorem create_stores_the_order:
  assumes "errs (orderSchema cv body) = []"
    and "distinct (created_ids (requests @ [Create body uuid now1 now2]))"
  shows "(let orders = run cv requests
          in \<exists>order v. create cv uuid now1 now2 body orders = (Inr order, orders @ [order])
               \<and> run cv (requests @ [Create body uuid now1 now2]) = orders @ [order]
               \<and> validate cv body = Inr v
               \<and> uuid \<notin> id' ` set orders
               \<and> id' order = uuid
               \<and> status order = ''pending''
               \<and> customerId order = customerId v \<and> items order = items v
               \<and> shippingAddress order = shippingAddress v
               \<and> total' order = input_total cv body
               \<and> createdAt order = now1 \<and> updatedAt order = now2
               \<and> distinct (map id' (orders @ [order]))
               \<and> getById uuid (orders @ [order]) = (Inr order, orders @ [order])
               \<and> filteredOrders None (orders @ [order]) = orders @ [order]
               \<and> filteredOrders (Some ''pending'') (orders @ [order]) =
                   filteredOrders (Some ''pending'') orders @ [order]
               \<and> fst (fst (list_orders (Some 1) (Some (int (length orders) + 1)) None
                      (orders @ [order]))) = orders @ [order])"
proof -
  define orders where "orders = run cv requests"
  from assms(2) have d1: "distinct (created_ids requests)"
    and d2: "uuid \<notin> set (created_ids requests)"
    by (simp_all add: created_ids_append)
  from run_ids [of requests cv] d1 have i: "distinct (map id' orders)"
    "id' ` set orders \<subseteq> set (created_ids requests)"
    by (simp_all add: orders_def)
  from i(2) d2 have fresh: "uuid \<notin> id' ` set orders"
    by blast
  from validate_valid [OF assms(1)] obtain v where
    v: "orderSchema cv body = Inr v" "validate cv body = Inr v"
    by blast
  define order where "order =
    \<lparr>customerId = customerId v, items = items v, shippingAddress = shippingAddress v,
     id' = uuid, status = ''pending'',
     total' = foldl (\<lambda>sum item. fadd sum (fmul (Finite (price item)) (Finite (quantity item))))
                (Finite 0) (items v),
     createdAt = now1, updatedAt = now2\<rparr>"
  have c: "create cv uuid now1 now2 body orders = (Inr order, orders @ [order])"
    using v(2) by (simp add: create_def order_def Let_def)
  then have r: "run cv (requests @ [Create body uuid now1 now2]) = orders @ [order]"
    by (simp add: run_def orders_def)
  have t: "total' order = input_total cv body"
    using orderSchema_total [OF v(1)] by (simp add: order_def)
  have g: "getById uuid (orders @ [order]) = (Inr order, orders @ [order])"
  proof -
    from fresh have "\<forall>x \<in> set orders. \<not> id' x = uuid"
      by auto
    then have "find (\<lambda>x. id' x = uuid) (orders @ [order]) = Some order"
      by (rule find_last) (simp add: order_def)
    then show ?thesis
      by (simp add: getById_def)
  qed
  have l: "fst (fst (list_orders (Some 1) (Some (int (length orders) + 1)) None
      (orders @ [order]))) = orders @ [order]"
    by (simp add: list_orders_def filteredOrders_def slice_def Let_def)
  have d: "distinct (map id' (orders @ [order]))"
    using i(1) fresh by (simp add: order_def)
  have f: "filteredOrders None (orders @ [order]) = orders @ [order]"
    "filteredOrders (Some ''pending'') (orders @ [order]) =
       filteredOrders (Some ''pending'') orders @ [order]"
    by (simp_all add: filteredOrders_def order_def)
  have s: "id' order = uuid" "status order = ''pending''" "customerId order = customerId v"
    "items order = items v" "shippingAddress order = shippingAddress v"
    "createdAt order = now1" "updatedAt order = now2"
    by (simp_all add: order_def)
  from c r v(2) fresh s t d g f l have
    "\<exists>order v. create cv uuid now1 now2 body orders = (Inr order, orders @ [order])
       \<and> run cv (requests @ [Create body uuid now1 now2]) = orders @ [order]
       \<and> validate cv body = Inr v
       \<and> uuid \<notin> id' ` set orders
       \<and> id' order = uuid
       \<and> status order = ''pending''
       \<and> customerId order = customerId v \<and> items order = items v
       \<and> shippingAddress order = shippingAddress v
       \<and> total' order = input_total cv body
       \<and> createdAt order = now1 \<and> updatedAt order = now2
       \<and> distinct (map id' (orders @ [order]))
       \<and> getById uuid (orders @ [order]) = (Inr order, orders @ [order])
       \<and> filteredOrders None (orders @ [order]) = orders @ [order]
       \<and> filteredOrders (Some ''pending'') (orders @ [order]) =
           filteredOrders (Some ''pending'') orders @ [order]
       \<and> fst (fst (list_orders (Some 1) (Some (int (length orders) + 1)) None
              (orders @ [order]))) = orders @ [order]"
    by (intro exI [of _ order] exI [of _ v]) simp
  then show ?thesis
    by (simp only: Let_def orders_def)
qed

theorem create_stores_the_order_witness:
  "errs (orderSchema no_strings validOrder) = []
   \<and> distinct (created_ids ([Create validOrder ''u0'' ''t0'' ''t0'']
        @ [Create validOrder ''u1'' ''t1'' ''t1'']))
   \<and> run no_strings [Create validOrder ''u0'' ''t0'' ''t0''] = [stored ''u0'' ''pending'' ''t0'']
   \<and> create no_strings ''u1'' ''t1'' ''t1'' validOrder [stored ''u0'' ''pending'' ''t0''] =
       (Inr (stored ''u1'' ''pending'' ''t1''),
        [stored ''u0'' ''pending'' ''t0'', stored ''u1'' ''pending'' ''t1''])
   \<and> total' (stored ''u1'' ''pending'' ''t1'') = input_total no_strings validOrder"
proof -
  have h1: "errs (orderSchema no_strings validOrder) = []"
    by code_simp
  have h2: "distinct (created_ids ([Create validOrder ''u0'' ''t0'' ''t0'']
        @ [Create validOrder ''u1'' ''t1'' ''t1'']))"
    by simp
  have r: "run no_strings [Create validOrder ''u0'' ''t0'' ''t0''] =
      [stored ''u0'' ''pending'' ''t0'']"
    by code_simp
  have e: "create no_strings ''u1'' ''t1'' ''t1'' validOrder [stored ''u0'' ''pending'' ''t0''] =
       (Inr (stored ''u1'' ''pending'' ''t1''),
        [stored ''u0'' ''pending'' ''t0'', stored ''u1'' ''pending'' ''t1''])"
    by code_simp
  from create_stores_the_order [OF h1 h2, unfolded Let_def r] obtain order where
    "create no_strings ''u1'' ''t1'' ''t1'' validOrder [stored ''u0'' ''pending'' ''t0''] =
       (Inr order, [stored ''u0'' ''pending'' ''t0''] @ [order])"
    "total' order = input_total no_strings validOrder"
    by blast
  with e have "total' (stored ''u1'' ''pending'' ''t1'') = input_total no_strings validOrder"
    by simp
  with h1 h2 r e show ?thesis
    by (intro conjI)
qed

text \<open>
  The claim as stated fails in two places. It has \<open>createdAt = updatedAt\<close>: the handler
  reads the clock once for each field, and when the clock advances between the two
  readings the stored order has different stamps. And it has the total exactly equal to
  the sum of price times quantity: for one item of price \<open>0.1\<close> and quantity \<open>3\<close> that sum
  is \<open>3 / 10\<close>, and the stored total is the double \<open>0.30000000000000004\<close>.
\<close>

theorem create_stamps_and_total_counterexample:
  "create no_strings ''u1'' ''2024-01-01T00:00:00.000Z'' ''2024-01-01T00:00:00.001Z''
       validOrder [] =
     (Inr ((stored ''u1'' ''pending'' ''2024-01-01T00:00:00.000Z'')
             \<lparr>updatedAt := ''2024-01-01T00:00:00.001Z''\<rparr>),
      [(stored ''u1'' ''pending'' ''2024-01-01T00:00:00.000Z'')
             \<lparr>updatedAt := ''2024-01-01T00:00:00.001Z''\<rparr>])
   \<and> createdAt ((stored ''u1'' ''pending'' ''2024-01-01T00:00:00.000Z'')
             \<lparr>updatedAt := ''2024-01-01T00:00:00.001Z''\<rparr>) \<noteq>
     updatedAt ((stored ''u1'' ''pending'' ''2024-01-01T00:00:00.000Z'')
             \<lparr>updatedAt := ''2024-01-01T00:00:00.001Z''\<rparr>)
   \<and> map_sum id total' (fst (create no_strings ''u1'' ''t'' ''t'' tenthOrder [])) =
       Inr (Finite (1351079888211149 / 4503599627370496))
   \<and> exact_total tenthOrder = 3 / 10
   \<and> (1351079888211149 / 4503599627370496 :: rat) \<noteq> 3 / 10"
  by code_simp

subsection \<open>The stored status\<close>

lemma handle_keeps_status:
  assumes "\<forall>x \<in> set orders. status x \<in> set validStatuses"
  shows "\<forall>x \<in> set (handle cv orders r). status x \<in> set validStatuses"
proof (cases r)
  case (Create body uuid now1 now2)
  with assms show ?thesis
    by (auto simp add: create_def Let_def validStatuses_def split: sum.splits)
next
  case (List page_q limit_q status_q)
  with assms show ?thesis
    by (simp add: list_orders_def Let_def)
next
  case (GetById ident)
  with assms show ?thesis
    by (simp add: getById_def split: option.splits)
next
  case (UpdateStatus ident body now)
  show ?thesis
  proof (cases "updateStatus ident body now orders")
    case (Pair res orders')
    show ?thesis
    proof (cases res)
      case (Inl e)
      with Pair have "orders' = orders"
        by (auto simp add: updateStatus_def Let_def split: option.splits)
      with assms Pair UpdateStatus show ?thesis
        by simp
    next
      case (Inr updated)
      from updateStatus_Inr [OF Pair [unfolded Inr]] obtain i s where
        "s \<in> set validStatuses" "updated = (orders ! i)\<lparr>status := s, updatedAt := now\<rparr>"
        "orders' = orders[i := updated]" "i < length orders"
        by blast
      then have "\<forall>x \<in> set orders'. status x \<in> set validStatuses"
        using assms set_update_subset_insert [of orders i updated] by auto
      with Pair UpdateStatus show ?thesis
        by simp
    qed
  qed
next
  case (Delete ident)
  have "set (take i orders @ drop (Suc i) orders) \<subseteq> set orders" for i
    using set_take_subset [of i orders] set_drop_subset [of "Suc i" orders] by auto
  with assms Delete show ?thesis
    by (auto simp add: deleteOrder_def split: option.splits)
qed

text \<open>
  C9. After any sequence of create, list, getById, updateStatus and delete requests on
  the empty store, the status of every stored order is one of \<open>pending\<close>, \<open>processing\<close>,
  \<open>shipped\<close>, \<open>delivered\<close> and \<open>cancelled\<close>.
\<close>

theorem stored_status_is_valid:
  "\<forall>order \<in> set (run cv requests).
     status order \<in> {''pending'', ''processing'', ''shipped'', ''delivered'', ''cancelled''}"
proof -
  have "\<forall>order \<in> set (run cv requests). status order \<in> set validStatuses"
  proof (induction requests rule: rev_induct)
    case Nil
    show ?case by (simp add: run_def)
  next
    case (snoc r requests)
    have "run cv (requests @ [r]) = handle cv (run cv requests) r"
      by (simp add: run_def)
    with handle_keeps_status [OF snoc.IH] show ?case
      by simp
  qed
  then show ?thesis
    by (simp add: validStatuses_def)
qed

theorem stored_status_is_valid_witness:
  "run no_strings
     [Create validOrder ''u1'' ''t1'' ''t1'',
      UpdateStatus ''u1'' (JObj [(''status'', JStr ''shipped'')]) ''t2'',
      UpdateStatus ''u1'' (JObj [(''status'', JStr ''SHIPPED'')]) ''t3''] =
     [(stored ''u1'' ''shipped'' ''t1'')\<lparr>updatedAt := ''t2''\<rparr>]
   \<and> status ((stored ''u1'' ''shipped'' ''t1'')\<lparr>updatedAt := ''t2''\<rparr>) \<in>
       {''pending'', ''processing'', ''shipped'', ''delivered'', ''cancelled''}"
proof -
  have e: "run no_strings
     [Create validOrder ''u1'' ''t1'' ''t1'',
      UpdateStatus ''u1'' (JObj [(''status'', JStr ''shipped'')]) ''t2'',
      UpdateStatus ''u1'' (JObj [(''status'', JStr ''SHIPPED'')]) ''t3''] =
     [(stored ''u1'' ''shipped'' ''t1'')\<lparr>updatedAt := ''t2''\<rparr>]"
    by code_simp
  from stored_status_is_valid [of no_strings
      "[Create validOrder ''u1'' ''t1'' ''t1'',
        UpdateStatus ''u1'' (JObj [(''status'', JStr ''shipped'')]) ''t2'',
        UpdateStatus ''u1'' (JObj [(''status'', JStr ''SHIPPED'')]) ''t3'']"]
  show ?thesis
    unfolding e by simp
qed

end
